theory Spec2Isabelle
  imports Main "HOL-Library.Sublist"
begin

section \<open>The 8kHz patch script: a file backed up, patched and restored\<close>

text \<open>
  The script \<^verbatim>\<open>scripts/8kHz_polling.py\<close> works on two files of one directory,
  \<^verbatim>\<open>usb_desc.h\<close> and \<^verbatim>\<open>usb_desc.h.bak\<close>. The file system is the map from these two
  paths to the text each file holds; a path that is mapped to \<open>None\<close> does not exist.
  A file's content is its text, as \<^verbatim>\<open>open(path, "r").read()\<close> returns it and
  \<^verbatim>\<open>shutil.copy\<close> carries it over unchanged; how the text is encoded in bytes, and
  how text mode translates line ends, is left out.
\<close>

datatype path = original_header_path | backup_header_path

type_synonym fs = "path \<rightharpoonup> string"

text \<open>
  Every call of the script that touches the file system may raise \<^verbatim>\<open>IOError\<close>. Whether
  it does is an input of the model: each call site takes a flag. A call also fails by
  itself where Python does (copying or reading a file that is missing, removing one).
\<close>

datatype exn = IOError

definition os_path_exists :: "fs \<Rightarrow> path \<Rightarrow> bool" where
  "os_path_exists f p = (f p \<noteq> None)"

definition shutil_copy :: "bool \<Rightarrow> path \<Rightarrow> path \<Rightarrow> fs \<Rightarrow> exn + fs" where
  "shutil_copy fails src dst f =
     (if fails then Inl IOError
      else case f src of
             None \<Rightarrow> Inl IOError
           | Some c \<Rightarrow> Inr (f(dst \<mapsto> c)))"

definition os_remove :: "bool \<Rightarrow> path \<Rightarrow> fs \<Rightarrow> exn + fs" where
  "os_remove fails p f =
     (if fails then Inl IOError
      else case f p of
             None \<Rightarrow> Inl IOError
           | Some c \<Rightarrow> Inr (f(p := None)))"

definition read_text :: "bool \<Rightarrow> path \<Rightarrow> fs \<Rightarrow> exn + string" where
  "read_text fails p f =
     (if fails then Inl IOError
      else case f p of
             None \<Rightarrow> Inl IOError
           | Some c \<Rightarrow> Inr c)"

text \<open>
  \<^verbatim>\<open>open(path, "w")\<close> truncates the file before anything is written, so a write that
  raises can leave the file with any content: the fault carries what is left there.
\<close>

datatype write_fault = WriteOk | WriteFails "string option"

definition write_text :: "write_fault \<Rightarrow> path \<Rightarrow> string \<Rightarrow> fs \<Rightarrow> fs + fs" where
  "write_text fault p c f =
     (case fault of
        WriteOk \<Rightarrow> Inr (f(p \<mapsto> c))
      | WriteFails left \<Rightarrow> Inl (f(p := left)))"

subsection \<open>Python's substring test and \<^verbatim>\<open>str.replace\<close>\<close>

text \<open>
  \<^verbatim>\<open>m in s\<close> holds when \<open>m\<close> starts at some position of \<open>s\<close> (the empty text is in
  every text). \<^verbatim>\<open>s.replace(old, new)\<close> goes through \<open>s\<close> from the left, replaces an
  occurrence of \<open>old\<close> where it finds one and goes on after it, so the occurrences it
  replaces do not overlap; for the empty \<open>old\<close> it puts \<open>new\<close> before every character
  and at the end.
\<close>

fun contains_str :: "string \<Rightarrow> string \<Rightarrow> bool" where
  "contains_str m [] = (m = [])"
| "contains_str m (c # cs) = (prefix m (c # cs) \<or> contains_str m cs)"

function str_replace :: "string \<Rightarrow> string \<Rightarrow> string \<Rightarrow> string" where
  "str_replace old new s =
     (if old = [] then new @ concat (map (\<lambda>c. c # new) s)
      else if prefix old s then new @ str_replace old new (drop (length old) s)
      else case s of
             [] \<Rightarrow> []
           | c # cs \<Rightarrow> c # str_replace old new cs)"
  by pat_completeness auto
termination
proof (relation "measure (\<lambda>(old, new, s). length s)")
  show "wf (measure (\<lambda>(old, new, s). length s))"
    by simp
next
  fix old new s :: string
  assume "old \<noteq> []" and "prefix old s"
  then have "0 < length old" and "length old \<le> length s"
    by (simp_all add: prefix_length_le)
  then have "length s - length old < length s"
    by arith
  then show "((old, new, drop (length old) s), (old, new, s))
               \<in> measure (\<lambda>(old, new, s). length s)"
    by simp
next
  fix old new s :: string and c cs
  assume "s = c # cs"
  then show "((old, new, cs), (old, new, s)) \<in> measure (\<lambda>(old, new, s). length s)"
    by simp
qed

declare str_replace.simps [simp del]

subsection \<open>What the script prints, and how a part of it ends\<close>

datatype msg =
    Running_patch_script
  | Found_old_backup
  | Backup_created
  | Error_could_not_create_backup
  | Patched_for_8kHz
  | Not_found_or_already_patched
  | Error_could_not_read_write
  | Build_finished_restoring
  | Original_file_restored
  | Warning_backup_not_found

datatype ending = Completed | SystemExit nat | Uncaught exn

type_synonym result = "ending \<times> msg list \<times> fs"

definition ending_of :: "result \<Rightarrow> ending" where
  "ending_of r = fst r"

definition printed :: "result \<Rightarrow> msg list" where
  "printed r = fst (snd r)"

definition fs_of :: "result \<Rightarrow> fs" where
  "fs_of r = snd (snd r)"

subsection \<open>Safety check and restore (lines 41 to 44)\<close>

text \<open>
  \<^verbatim>\<open>
  if os.path.exists(backup_header_path):
      print("PlatformIO: Found old backup. Restoring original file before patching.")
      shutil.copy(backup_header_path, original_header_path)
      os.remove(backup_header_path)
  \<close>
  Nothing catches an error here: a call that raises ends the script, with the file
  system as the calls before it left it.
\<close>

definition ensureClean :: "bool \<Rightarrow> bool \<Rightarrow> fs \<Rightarrow> result" where
  "ensureClean copy_fails remove_fails f =
     (if os_path_exists f backup_header_path then
        (case shutil_copy copy_fails backup_header_path original_header_path f of
           Inl e \<Rightarrow> (Uncaught e, [Found_old_backup], f)
         | Inr f1 \<Rightarrow>
             (case os_remove remove_fails backup_header_path f1 of
                Inl e \<Rightarrow> (Uncaught e, [Found_old_backup], f1)
              | Inr f2 \<Rightarrow> (Completed, [Found_old_backup], f2)))
      else (Completed, [], f))"

subsection \<open>Backup, then read, patch and overwrite (lines 47 to 76)\<close>

record apply_faults =
  backup_copy_fails :: bool
  read_fails :: bool
  write_fault :: write_fault
  restore_copy_fails :: bool
  restore_remove_fails :: bool

definition no_faults :: apply_faults where
  "no_faults = \<lparr>backup_copy_fails = False, read_fails = False, write_fault = WriteOk,
                restore_copy_fails = False, restore_remove_fails = False\<rparr>"

text \<open>
  The body of the second \<^verbatim>\<open>try\<close> (lines 56 to 69):
  \<^verbatim>\<open>
  with open(original_header_path, "r") as f:
      content = f.read()
  if original_mouse_interval in content:
      content = content.replace(original_mouse_interval, modified_mouse_interval)
      with open(original_header_path, "w") as f:
          f.write(content)
      print("PlatformIO: Original usb_desc.h has been patched for 8kHz.")
  else:
      print("PlatformIO: MOUSE_INTERVAL not found or already patched. Skipping.")
  \<close>
  \<open>Inl\<close> is the \<^verbatim>\<open>IOError\<close> the handler catches, with the file system as the failed
  call left it. The two texts are parameters, so that the claims about any rule can be
  stated; the script's own are \<open>mouse_rule\<close> below.
\<close>

definition patch_body :: "apply_faults \<Rightarrow> string \<Rightarrow> string \<Rightarrow> fs \<Rightarrow> fs + msg list \<times> fs" where
  "patch_body af old new f =
     (case read_text (read_fails af) original_header_path f of
        Inl e \<Rightarrow> Inl f
      | Inr content \<Rightarrow>
          (if contains_str old content then
             (case write_text (write_fault af) original_header_path
                     (str_replace old new content) f of
                Inl f1 \<Rightarrow> Inl f1
              | Inr f1 \<Rightarrow> Inr ([Patched_for_8kHz], f1))
           else Inr ([Not_found_or_already_patched], f)))"

text \<open>
  The first \<^verbatim>\<open>try\<close> makes the backup and ends the script with \<^verbatim>\<open>exit(1)\<close> when the
  copy raises. The handler of the second one (lines 71 to 76) prints the error, copies
  the backup over the header, removes the backup and ends the script with
  \<^verbatim>\<open>exit(1)\<close>; an error raised in the handler itself is caught by nothing.
\<close>

definition apply_patch :: "apply_faults \<Rightarrow> string \<times> string \<Rightarrow> fs \<Rightarrow> result" where
  "apply_patch af rule f =
     (case shutil_copy (backup_copy_fails af) original_header_path backup_header_path f of
        Inl e \<Rightarrow> (SystemExit 1, [Error_could_not_create_backup], f)
      | Inr f1 \<Rightarrow>
          (case patch_body af (fst rule) (snd rule) f1 of
             Inr (msgs, f2) \<Rightarrow> (Completed, Backup_created # msgs, f2)
           | Inl f2 \<Rightarrow>
               (case shutil_copy (restore_copy_fails af)
                       backup_header_path original_header_path f2 of
                  Inl e \<Rightarrow> (Uncaught e, [Backup_created, Error_could_not_read_write], f2)
                | Inr f3 \<Rightarrow>
                    (case os_remove (restore_remove_fails af) backup_header_path f3 of
                       Inl e \<Rightarrow>
                         (Uncaught e, [Backup_created, Error_could_not_read_write], f3)
                     | Inr f4 \<Rightarrow>
                         (SystemExit 1, [Backup_created, Error_could_not_read_write], f4)))))"

definition original_mouse_interval :: string where
  "original_mouse_interval = ''#define MOUSE_INTERVAL        2''"

definition modified_mouse_interval :: string where
  "modified_mouse_interval = ''#define MOUSE_INTERVAL        1''"

definition mouse_rule :: "string \<times> string" where
  "mouse_rule = (original_mouse_interval, modified_mouse_interval)"

subsection \<open>The cleanup action (lines 80 to 87)\<close>

text \<open>
  \<^verbatim>\<open>
  def restore_backup(source, target, env):
      print("PlatformIO: Build finished. Restoring original usb_desc.h from backup...")
      if os.path.exists(backup_header_path):
          shutil.copy(backup_header_path, original_header_path)
          os.remove(backup_header_path)
          print("PlatformIO: Original file restored.")
      else:
          print("PlatformIO: Warning: Backup file not found, cannot restore.")
  \<close>
\<close>

definition restore_backup :: "bool \<Rightarrow> bool \<Rightarrow> fs \<Rightarrow> result" where
  "restore_backup copy_fails remove_fails f =
     (if os_path_exists f backup_header_path then
        (case shutil_copy copy_fails backup_header_path original_header_path f of
           Inl e \<Rightarrow> (Uncaught e, [Build_finished_restoring], f)
         | Inr f1 \<Rightarrow>
             (case os_remove remove_fails backup_header_path f1 of
                Inl e \<Rightarrow> (Uncaught e, [Build_finished_restoring], f1)
              | Inr f2 \<Rightarrow>
                  (Completed, [Build_finished_restoring, Original_file_restored], f2)))
      else (Completed, [Build_finished_restoring, Warning_backup_not_found], f))"

subsection \<open>The script up to the build (lines 30 to 76)\<close>

text \<open>
  The module runs the safety check and then the patch; a part that does not complete
  ends the script there.
\<close>

definition run_script :: "bool \<Rightarrow> bool \<Rightarrow> apply_faults \<Rightarrow> fs \<Rightarrow> result" where
  "run_script copy_fails remove_fails af f =
     (case ensureClean copy_fails remove_fails f of
        (Completed, msgs, f1) \<Rightarrow>
          (case apply_patch af mouse_rule f1 of
             (e, msgs', f2) \<Rightarrow> (e, Running_patch_script # msgs @ msgs', f2))
      | (e, msgs, f1) \<Rightarrow> (e, Running_patch_script # msgs, f1))"

subsection \<open>Replacing all occurrences, as a relation\<close>

text \<open>
  What "replace all occurrences of the match text" asks for, stated without an algorithm:
  a text with no occurrence stays as it is; otherwise the first occurrence is the one
  after the shortest \<open>u\<close> (the match text does not occur in \<open>u\<close> followed by all but its
  last character), it is replaced, and the rest of the text after it is treated the same
  way. \<open>str_replace\<close> is compared with this relation below.
\<close>

inductive replaced_all :: "string \<Rightarrow> string \<Rightarrow> string \<Rightarrow> string \<Rightarrow> bool"
  for old new :: string where
    no_occurrence: "\<not> sublist old s \<Longrightarrow> replaced_all old new s s"
  | first_occurrence:
      "\<not> sublist old (u @ butlast old) \<Longrightarrow> replaced_all old new v v' \<Longrightarrow>
       replaced_all old new (u @ old @ v) (u @ new @ v')"

subsection \<open>The pristine content\<close>

text \<open>
  \<open>P\<close> is the pristine content of the header when the backup, if there is one, holds \<open>P\<close>,
  and the header itself holds \<open>P\<close> while there is no backup.
\<close>

definition pristine_kept :: "string \<Rightarrow> fs \<Rightarrow> bool" where
  "pristine_kept P f =
     (case f backup_header_path of
        None \<Rightarrow> f original_header_path = Some P
      | Some b \<Rightarrow> b = P)"

subsection \<open>A header to run the script on\<close>

definition usb_desc_sample :: string where
  "usb_desc_sample = ''int a; #define MOUSE_INTERVAL        2 int b;''"

definition usb_desc_patched :: string where
  "usb_desc_patched = ''int a; #define MOUSE_INTERVAL        1 int b;''"

section \<open>Facts about the parts\<close>

subsection \<open>\<open>str_replace\<close>, one case at a time\<close>

lemma str_replace_empty_old:
  "str_replace [] new s = new @ concat (map (\<lambda>c. c # new) s)"
  by (subst str_replace.simps) simp

lemma str_replace_Nil: "old \<noteq> [] \<Longrightarrow> str_replace old new [] = []"
  by (subst str_replace.simps) simp

lemma str_replace_match:
  "old \<noteq> [] \<Longrightarrow> prefix old s \<Longrightarrow>
   str_replace old new s = new @ str_replace old new (drop (length old) s)"
  by (subst str_replace.simps) simp

lemma str_replace_skip:
  "old \<noteq> [] \<Longrightarrow> \<not> prefix old (c # cs) \<Longrightarrow>
   str_replace old new (c # cs) = c # str_replace old new cs"
  by (subst str_replace.simps) simp

subsection \<open>The substring test is the substring relation\<close>

lemma contains_str_iff: "contains_str m s \<longleftrightarrow> (\<exists>u v. s = u @ m @ v)"
proof (induction s)
  case Nil
  then show ?case by auto
next
  case (Cons c cs)
  show ?case
  proof
    assume "contains_str m (c # cs)"
    then consider "prefix m (c # cs)" | "contains_str m cs" by auto
    then show "\<exists>u v. c # cs = u @ m @ v"
    proof cases
      case 1
      then obtain v where "c # cs = m @ v" by (auto simp: prefix_def)
      then have "c # cs = [] @ m @ v" by simp
      then show ?thesis by blast
    next
      case 2
      with Cons.IH obtain u v where "cs = u @ m @ v" by blast
      then have "c # cs = (c # u) @ m @ v" by simp
      then show ?thesis by blast
    qed
  next
    assume "\<exists>u v. c # cs = u @ m @ v"
    then obtain u v where uv: "c # cs = u @ m @ v" by blast
    show "contains_str m (c # cs)"
    proof (cases u)
      case Nil
      with uv have "prefix m (c # cs)" by (simp add: prefix_def)
      then show ?thesis by simp
    next
      case (Cons d u')
      with uv have "cs = u' @ m @ v" by simp
      with Cons.IH have "contains_str m cs" by blast
      then show ?thesis by simp
    qed
  qed
qed

lemma contains_str_sublist: "contains_str m s = sublist m s"
  by (simp add: contains_str_iff sublist_def)

lemma contains_replacement:
  "contains_str old s \<Longrightarrow> contains_str new (str_replace old new s)"
proof (cases "old = []")
  case True
  then show ?thesis
    by (simp add: str_replace_empty_old contains_str_sublist)
next
  case False
  assume "contains_str old s"
  then show ?thesis
  proof (induction s)
    case Nil
    with False show ?case by simp
  next
    case (Cons c cs)
    show ?case
    proof (cases "prefix old (c # cs)")
      case True
      with False show ?thesis
        by (simp add: str_replace_match contains_str_sublist)
    next
      case np: False
      with Cons.prems have "contains_str old cs" by simp
      then have "contains_str new (str_replace old new cs)" by (rule Cons.IH)
      with False np show ?thesis
        by (simp add: str_replace_skip)
    qed
  qed
qed

lemma str_replace_no_match:
  "\<not> contains_str old s \<Longrightarrow> str_replace old new s = s"
proof (induction s)
  case Nil
  then show ?case by (simp add: str_replace_Nil)
next
  case (Cons c cs)
  then have "old \<noteq> []" and "\<not> prefix old (c # cs)" and "\<not> contains_str old cs"
    by auto
  with Cons.IH show ?case
    by (simp add: str_replace_skip)
qed

subsection \<open>\<open>str_replace\<close> computes the relation, and nothing else does\<close>

lemma not_sublist_butlast: "old \<noteq> [] \<Longrightarrow> \<not> sublist old (butlast old)"
proof
  assume ne: "old \<noteq> []" and sub: "sublist old (butlast old)"
  from sub have "length old \<le> length (butlast old)"
    by (rule sublist_length_le)
  then have "length old \<le> length old - 1"
    by (simp only: length_butlast)
  moreover from ne have "length old \<noteq> 0"
    by simp
  ultimately show False
    by arith
qed

lemma replaced_all_Cons:
  assumes "replaced_all old new s t" and "\<not> prefix old (c # s)"
  shows "replaced_all old new (c # s) (c # t)"
  using assms
proof (cases rule: replaced_all.cases)
  case no_occurrence
  with assms(2) have "\<not> sublist old (c # s)"
    by (simp add: sublist_Cons_right)
  with no_occurrence show ?thesis
    by (simp add: replaced_all.no_occurrence)
next
  case (first_occurrence u v v')
  have "prefix (c # u @ butlast old) (c # s)"
  proof -
    have "prefix (butlast old) old" by (simp add: prefixeq_butlast)
    then have "prefix (butlast old) (old @ v)" by (rule prefix_prefix)
    then show ?thesis using first_occurrence(1) by simp
  qed
  with assms(2) have "\<not> prefix old (c # u @ butlast old)"
    using prefix_order.trans by blast
  with first_occurrence(3) have "\<not> sublist old ((c # u) @ butlast old)"
    by (simp add: sublist_Cons_right)
  then have "replaced_all old new ((c # u) @ old @ v) ((c # u) @ new @ v')"
    using first_occurrence(4) by (rule replaced_all.first_occurrence)
  with first_occurrence(1,2) show ?thesis by simp
qed

lemma str_replace_replaced_all:
  "old \<noteq> [] \<Longrightarrow> replaced_all old new s (str_replace old new s)"
proof (induction old new s rule: str_replace.induct)
  case (1 old new s)
  show ?case
  proof (cases "prefix old s")
    case True
    then obtain v where s: "s = old @ v" by (auto simp: prefix_def)
    from 1 True have "replaced_all old new v (str_replace old new v)"
      by (simp add: s)
    moreover have "\<not> sublist old ([] @ butlast old)"
      using 1(3) by (simp add: not_sublist_butlast)
    ultimately have "replaced_all old new ([] @ old @ v) ([] @ new @ str_replace old new v)"
      by (rule replaced_all.first_occurrence [rotated])
    with 1(3) True s show ?thesis
      by (simp add: str_replace_match)
  next
    case np: False
    show ?thesis
    proof (cases s)
      case Nil
      with 1(3) show ?thesis
        by (simp add: str_replace_Nil replaced_all.no_occurrence)
    next
      case (Cons c cs)
      with 1 np have "replaced_all old new cs (str_replace old new cs)" by simp
      then have "replaced_all old new (c # cs) (c # str_replace old new cs)"
        using np Cons by (simp add: replaced_all_Cons)
      with 1(3) np Cons show ?thesis
        by (simp add: str_replace_skip)
    qed
  qed
qed

lemma str_replace_first_occurrence:
  assumes "old \<noteq> []" and "\<not> sublist old (u @ butlast old)"
  shows "str_replace old new (u @ old @ v) = u @ new @ str_replace old new v"
  using assms(2)
proof (induction u)
  case Nil
  with assms(1) show ?case by (simp add: str_replace_match)
next
  case (Cons c u)
  from Cons.prems have np': "\<not> prefix old (c # u @ butlast old)"
    and ns: "\<not> sublist old (u @ butlast old)"
    by (simp_all add: sublist_Cons_right)
  have "\<not> prefix old (c # u @ old @ v)"
  proof
    assume p: "prefix old (c # u @ old @ v)"
    have "length old \<le> length (c # u @ butlast old)"
      by simp
    moreover have "prefix (c # u @ butlast old) (c # u @ old @ v)"
      using prefix_prefix [OF prefixeq_butlast, of old v] by simp
    ultimately have "prefix old (c # u @ butlast old)"
      using p by (meson prefix_length_prefix)
    with np' show False by contradiction
  qed
  with assms(1) Cons.IH [OF ns] show ?case
    by (simp add: str_replace_skip)
qed

lemma replaced_all_unique:
  assumes "replaced_all old new s t" and "old \<noteq> []"
  shows "t = str_replace old new s"
  using assms
proof (induction rule: replaced_all.induct)
  case (no_occurrence s)
  then show ?case
    by (simp add: str_replace_no_match contains_str_sublist)
next
  case (first_occurrence u v v')
  then show ?case
    by (simp add: str_replace_first_occurrence)
qed

subsection \<open>When the match text is gone after replacing\<close>

text \<open>
  The replacement can bring the match text back (replacing \<^verbatim>\<open>ba\<close> by \<^verbatim>\<open>bb\<close> in
  \<^verbatim>\<open>baa\<close> gives \<^verbatim>\<open>bba\<close>). It cannot when both texts start with a character that
  occurs nowhere else in them, as \<^verbatim>\<open>#\<close> in the two lines of the script, and the
  replacement is at least as long and does not start with the match text.
\<close>

lemma contains_str_skip_prefix:
  assumes "h \<notin> set t'"
  shows "contains_str (h # t) (t' @ r) \<Longrightarrow> contains_str (h # t) r"
  using assms by (induction t') auto

lemma prefix_of_str_replace:
  assumes "old \<noteq> []" and "hd new = h" and "new \<noteq> []"
  shows "prefix p (str_replace old new s) \<Longrightarrow> h \<notin> set p \<Longrightarrow> prefix p s"
proof (induction s arbitrary: p)
  case Nil
  with assms(1) show ?case by (simp add: str_replace_Nil)
next
  case (Cons c cs)
  show ?case
  proof (cases "prefix old (c # cs)")
    case True
    with assms(1) have "str_replace old new (c # cs)
        = new @ str_replace old new (drop (length old) (c # cs))"
      by (simp add: str_replace_match)
    with assms(2,3) obtain r where "str_replace old new (c # cs) = h # r"
      by (cases new) auto
    with Cons.prems have "p = []"
      by (cases p) auto
    then show ?thesis by simp
  next
    case False
    with assms(1) have eq: "str_replace old new (c # cs) = c # str_replace old new cs"
      by (simp add: str_replace_skip)
    show ?thesis
    proof (cases p)
      case Nil
      then show ?thesis by simp
    next
      case (Cons d p')
      with Cons.prems eq have "d = c" and "prefix p' (str_replace old new cs)"
        and "h \<notin> set p'"
        by auto
      with Cons.IH Cons show ?thesis by simp
    qed
  qed
qed

lemma str_replace_removes_old:
  assumes "h \<notin> set t" and "h \<notin> set t'" and "\<not> prefix (h # t) (h # t')"
    and "length t \<le> length t'"
  shows "\<not> contains_str (h # t) (str_replace (h # t) (h # t') s)"
proof (induction "h # t" "h # t'" s rule: str_replace.induct)
  case (1 s)
  let ?old = "h # t" and ?new = "h # t'"
  show ?case
  proof (cases "prefix ?old s")
    case True
    let ?r = "str_replace ?old ?new (drop (length ?old) s)"
    from True 1 have ih: "\<not> contains_str ?old ?r" by simp
    have "\<not> prefix ?old (?new @ ?r)"
    proof
      assume "prefix ?old (?new @ ?r)"
      moreover have "prefix ?new (?new @ ?r)" by simp
      moreover have "length ?old \<le> length ?new" using assms(4) by simp
      ultimately have "prefix ?old ?new" by (rule prefix_length_prefix)
      with assms(3) show False by contradiction
    qed
    moreover have "\<not> contains_str ?old (t' @ ?r)"
      using ih contains_str_skip_prefix [OF assms(2)] by blast
    ultimately have "\<not> contains_str ?old (?new @ ?r)" by simp
    with True show ?thesis by (simp add: str_replace_match)
  next
    case np: False
    show ?thesis
    proof (cases s)
      case Nil
      then show ?thesis by (simp add: str_replace_Nil)
    next
      case (Cons c cs)
      with np 1 have ih: "\<not> contains_str ?old (str_replace ?old ?new cs)" by simp
      have "\<not> prefix ?old (c # str_replace ?old ?new cs)"
      proof
        assume "prefix ?old (c # str_replace ?old ?new cs)"
        then have "c = h" and "prefix t (str_replace ?old ?new cs)" by auto
        then have "prefix t cs"
          using prefix_of_str_replace [of ?old ?new h t cs] assms(1) by simp
        with \<open>c = h\<close> Cons np show False by simp
      qed
      with ih np Cons show ?thesis by (simp add: str_replace_skip)
    qed
  qed
qed

lemma mouse_rule_removes_original:
  "\<not> contains_str original_mouse_interval
       (str_replace original_mouse_interval modified_mouse_interval s)"
  unfolding original_mouse_interval_def modified_mouse_interval_def
  by (rule str_replace_removes_old) simp_all

subsection \<open>The sample header\<close>

lemma sample_contains: "contains_str original_mouse_interval usb_desc_sample"
  by (simp add: original_mouse_interval_def usb_desc_sample_def)

lemma patched_not_contains: "\<not> contains_str original_mouse_interval usb_desc_patched"
  by (simp add: original_mouse_interval_def usb_desc_patched_def)

lemma sample_patched:
  "str_replace original_mouse_interval modified_mouse_interval usb_desc_sample
     = usb_desc_patched"
  by (simp add: original_mouse_interval_def modified_mouse_interval_def usb_desc_sample_def
      usb_desc_patched_def str_replace_Nil str_replace_match str_replace_skip)

lemma sample_not_patched: "usb_desc_sample \<noteq> usb_desc_patched"
  by (simp add: usb_desc_sample_def usb_desc_patched_def)

subsection \<open>Runs without faults, and runs that keep the pristine content\<close>

lemma restore_backup_present:
  assumes "f backup_header_path = Some b"
  shows "restore_backup False False f =
           (Completed, [Build_finished_restoring, Original_file_restored],
            f(original_header_path \<mapsto> b, backup_header_path := None))"
  using assms by (simp add: restore_backup_def os_path_exists_def shutil_copy_def os_remove_def)

lemma apply_patch_match:
  assumes "f original_header_path = Some C" and "contains_str old C"
  shows "apply_patch no_faults (old, new) f =
           (Completed, [Backup_created, Patched_for_8kHz],
            f(backup_header_path \<mapsto> C, original_header_path \<mapsto> str_replace old new C))"
  using assms
  by (simp add: apply_patch_def patch_body_def no_faults_def shutil_copy_def read_text_def
      write_text_def)

lemma apply_patch_no_match:
  assumes "f original_header_path = Some C" and "\<not> contains_str old C"
  shows "apply_patch no_faults (old, new) f =
           (Completed, [Backup_created, Not_found_or_already_patched],
            f(backup_header_path \<mapsto> C))"
  using assms
  by (simp add: apply_patch_def patch_body_def no_faults_def shutil_copy_def read_text_def)

lemma apply_patch_no_match_original:
  assumes "f original_header_path = Some C" and "\<not> contains_str old C"
  shows "fs_of (apply_patch af (old, new) f) original_header_path = Some C"
  using assms
  by (auto simp: apply_patch_def patch_body_def shutil_copy_def read_text_def
      os_remove_def fs_of_def split: sum.splits if_splits option.splits)

lemma clean_state_restored:
  assumes "f original_header_path = Some C" and "f backup_header_path = None"
  shows "f(backup_header_path \<mapsto> C, original_header_path \<mapsto> X,
           original_header_path \<mapsto> C, backup_header_path := None) = f"
proof (rule ext)
  fix p
  show "(f(backup_header_path \<mapsto> C, original_header_path \<mapsto> X,
           original_header_path \<mapsto> C, backup_header_path := None)) p = f p"
    using assms by (cases p) simp_all
qed

lemma apply_patch_compensates:
  assumes "f original_header_path = Some C"
    and "\<not> backup_copy_fails af"
    and "read_fails af \<or> (contains_str old C \<and> write_fault af = WriteFails left)"
    and "\<not> restore_copy_fails af" and "\<not> restore_remove_fails af"
  shows "apply_patch af (old, new) f =
           (SystemExit 1, [Backup_created, Error_could_not_read_write],
            f(original_header_path \<mapsto> C, backup_header_path := None))"
proof -
  let ?f1 = "f(backup_header_path \<mapsto> C)"
  have b: "shutil_copy (backup_copy_fails af) original_header_path backup_header_path f
             = Inr ?f1"
    using assms(1,2) by (simp add: shutil_copy_def)
  have "\<exists>f2. patch_body af old new ?f1 = Inl f2
            \<and> (f2 = ?f1 \<or> f2 = ?f1(original_header_path := left))"
  proof (cases "read_fails af")
    case True
    then have "patch_body af old new ?f1 = Inl ?f1"
      by (simp add: patch_body_def read_text_def)
    then show ?thesis by blast
  next
    case False
    with assms(3) have "contains_str old C" and "write_fault af = WriteFails left"
      by simp_all
    with False assms(1)
    have "patch_body af old new ?f1 = Inl (?f1(original_header_path := left))"
      by (simp add: patch_body_def read_text_def write_text_def)
    then show ?thesis by blast
  qed
  then obtain f2 where
    body: "patch_body af old new ?f1 = Inl f2" and
    f2: "f2 = ?f1 \<or> f2 = ?f1(original_header_path := left)"
    by blast
  from f2 have keep: "f2 backup_header_path = Some C"
    by auto
  have c: "shutil_copy (restore_copy_fails af) backup_header_path original_header_path f2
             = Inr (f2(original_header_path \<mapsto> C))"
    using keep assms(4) by (simp add: shutil_copy_def)
  have d: "os_remove (restore_remove_fails af) backup_header_path
             (f2(original_header_path \<mapsto> C))
             = Inr (f2(original_header_path \<mapsto> C, backup_header_path := None))"
    using keep assms(5) by (simp add: os_remove_def)
  have e: "f2(original_header_path \<mapsto> C, backup_header_path := None)
             = f(original_header_path \<mapsto> C, backup_header_path := None)"
  proof (rule ext)
    fix p
    show "(f2(original_header_path \<mapsto> C, backup_header_path := None)) p
            = (f(original_header_path \<mapsto> C, backup_header_path := None)) p"
      using f2 by (cases p) auto
  qed
  show ?thesis
    by (simp add: apply_patch_def b body c d e)
qed

lemma pristine_kept_ensureClean:
  "pristine_kept P f \<Longrightarrow> pristine_kept P (fs_of (ensureClean cf rf f))"
  by (auto simp: pristine_kept_def ensureClean_def os_path_exists_def shutil_copy_def
      os_remove_def fs_of_def split: option.splits)

lemma pristine_kept_restore_backup:
  "pristine_kept P f \<Longrightarrow> pristine_kept P (fs_of (restore_backup cf rf f))"
  by (auto simp: pristine_kept_def restore_backup_def os_path_exists_def shutil_copy_def
      os_remove_def fs_of_def split: option.splits)

lemma pristine_kept_apply_patch:
  "pristine_kept P f \<Longrightarrow> f backup_header_path = None \<Longrightarrow>
   pristine_kept P (fs_of (apply_patch af rule f))"
  by (auto simp: pristine_kept_def apply_patch_def patch_body_def shutil_copy_def
      read_text_def write_text_def os_remove_def fs_of_def
      split: option.splits write_fault.splits)

lemma ensureClean_cases:
  "ensureClean cf rf f = (e, msgs, f1) \<Longrightarrow> e = Completed \<Longrightarrow>
   f1 backup_header_path = None"
  by (auto simp: ensureClean_def os_path_exists_def shutil_copy_def
      os_remove_def split: option.splits if_splits)

lemma pristine_kept_run_script:
  assumes "pristine_kept P f"
  shows "pristine_kept P (fs_of (run_script cf rf af f))"
proof -
  obtain e msgs f1 where ec: "ensureClean cf rf f = (e, msgs, f1)"
    by (cases "ensureClean cf rf f") auto
  with assms pristine_kept_ensureClean [of P f cf rf] have k1: "pristine_kept P f1"
    by (simp add: fs_of_def)
  show ?thesis
  proof (cases "e = Completed")
    case True
    with ec have "f1 backup_header_path = None" by (simp add: ensureClean_cases)
    with k1 have "pristine_kept P (fs_of (apply_patch af mouse_rule f1))"
      by (rule pristine_kept_apply_patch)
    with ec True show ?thesis
      by (cases "apply_patch af mouse_rule f1") (simp add: run_script_def fs_of_def)
  next
    case False
    with ec k1 show ?thesis
      by (cases e) (simp_all add: run_script_def fs_of_def)
  qed
qed

section \<open>The claims\<close>

text \<open>
  In the claims, \<^verbatim>\<open>ensureClean\<close> is the safety check of lines 41 to 44, \<^verbatim>\<open>apply\<close> is
  \<open>apply_patch\<close> (lines 47 to 76), \<^verbatim>\<open>restore\<close> is \<open>restore_backup\<close>, \<^verbatim>\<open>originalPath\<close>
  is \<open>original_header_path\<close> and \<^verbatim>\<open>backupPath\<close> is \<open>backup_header_path\<close>. A run "without
  faults" is one where no call raises by injection.
\<close>

text \<open>
  C1. Round trip. Let the header hold \<open>C\<close>, let there be no backup, and let \<open>C\<close> contain
  the match text. Without faults the patch completes, leaving the backup with \<open>C\<close> and the
  header with the replaced text; the cleanup that follows completes and gives back the
  very file system the run started from: the header holds \<open>C\<close> again and the backup does
  not exist.
\<close>

theorem apply_then_restore_roundtrip:
  assumes "f original_header_path = Some C"
    and "f backup_header_path = None"
    and "contains_str old C"
  shows "apply_patch no_faults (old, new) f =
           (Completed, [Backup_created, Patched_for_8kHz],
            f(backup_header_path \<mapsto> C, original_header_path \<mapsto> str_replace old new C))
       \<and> restore_backup False False (fs_of (apply_patch no_faults (old, new) f)) =
           (Completed, [Build_finished_restoring, Original_file_restored], f)
       \<and> fs_of (restore_backup False False (fs_of (apply_patch no_faults (old, new) f)))
            original_header_path = Some C
       \<and> fs_of (restore_backup False False (fs_of (apply_patch no_faults (old, new) f)))
            backup_header_path = None"
proof -
  let ?f1 = "f(backup_header_path \<mapsto> C, original_header_path \<mapsto> str_replace old new C)"
  have a: "apply_patch no_faults (old, new) f =
             (Completed, [Backup_created, Patched_for_8kHz], ?f1)"
    using assms(1,3) by (rule apply_patch_match)
  have "?f1 backup_header_path = Some C" by simp
  then have "restore_backup False False ?f1 =
               (Completed, [Build_finished_restoring, Original_file_restored],
                ?f1(original_header_path \<mapsto> C, backup_header_path := None))"
    by (rule restore_backup_present)
  also have "?f1(original_header_path \<mapsto> C, backup_header_path := None) = f"
    using assms(1,2) by (rule clean_state_restored)
  finally have r: "restore_backup False False ?f1 =
               (Completed, [Build_finished_restoring, Original_file_restored], f)" .
  show ?thesis
    using a r assms(1,2) by (simp add: fs_of_def)
qed

theorem apply_then_restore_roundtrip_witness:
  "contains_str original_mouse_interval usb_desc_sample
   \<and> restore_backup False False
        (fs_of (apply_patch no_faults (original_mouse_interval, modified_mouse_interval)
                  [original_header_path \<mapsto> usb_desc_sample]))
       = (Completed, [Build_finished_restoring, Original_file_restored],
          [original_header_path \<mapsto> usb_desc_sample])"
proof -
  let ?f = "[original_header_path \<mapsto> usb_desc_sample]"
  have "?f original_header_path = Some usb_desc_sample"
    and "?f backup_header_path = None"
    by simp_all
  then show ?thesis
    using apply_then_restore_roundtrip [of ?f usb_desc_sample original_mouse_interval
        modified_mouse_interval] sample_contains
    by blast
qed

text \<open>
  C2, as stated, fails. The claim lets the patch part run a second time with no cleanup
  in between. On the sample header the first run leaves the backup with the pristine
  text and the header patched; the second run copies the patched header over the backup
  (line 48), so the backup exists and no longer holds the pristine text.
\<close>

theorem second_apply_overwrites_backup:
  "pristine_kept usb_desc_sample [original_header_path \<mapsto> usb_desc_sample]
   \<and> pristine_kept usb_desc_sample
        (fs_of (apply_patch no_faults mouse_rule [original_header_path \<mapsto> usb_desc_sample]))
   \<and> fs_of (apply_patch no_faults mouse_rule
        (fs_of (apply_patch no_faults mouse_rule
                  [original_header_path \<mapsto> usb_desc_sample]))) backup_header_path
       = Some usb_desc_patched
   \<and> usb_desc_patched \<noteq> usb_desc_sample
   \<and> \<not> pristine_kept usb_desc_sample
        (fs_of (apply_patch no_faults mouse_rule
          (fs_of (apply_patch no_faults mouse_rule
                    [original_header_path \<mapsto> usb_desc_sample]))))"
proof -
  let ?f0 = "[original_header_path \<mapsto> usb_desc_sample]"
  let ?f1 = "[backup_header_path \<mapsto> usb_desc_sample,
              original_header_path \<mapsto> usb_desc_patched]"
  have a1: "apply_patch no_faults mouse_rule ?f0 =
              (Completed, [Backup_created, Patched_for_8kHz], ?f1)"
    using apply_patch_match [of ?f0 usb_desc_sample original_mouse_interval
        modified_mouse_interval] sample_contains
    by (simp add: mouse_rule_def sample_patched)
  have a2: "apply_patch no_faults mouse_rule ?f1 =
              (Completed, [Backup_created, Not_found_or_already_patched],
               ?f1(backup_header_path \<mapsto> usb_desc_patched))"
    using apply_patch_no_match [of ?f1 usb_desc_patched original_mouse_interval
        modified_mouse_interval] patched_not_contains
    by (simp add: mouse_rule_def)
  show ?thesis
    using sample_not_patched by (simp add: a1 a2 fs_of_def pristine_kept_def)
qed

text \<open>
  C2, amended. Whatever faults occur, the pristine content is kept by the safety check,
  by the cleanup, and by the patch part when it starts with no backup present (the state
  the safety check leaves when it completes). The script always runs the safety check
  before the patch part, so a run of the script keeps the pristine content from any
  state, and so does a second run of the script with no cleanup in between.
\<close>

theorem pristine_backup_preserved:
  assumes "pristine_kept P f"
  shows "pristine_kept P (fs_of (ensureClean cf rf f))
       \<and> pristine_kept P (fs_of (restore_backup cf rf f))
       \<and> (f backup_header_path = None \<longrightarrow> pristine_kept P (fs_of (apply_patch af rule f)))
       \<and> pristine_kept P (fs_of (run_script cf rf af f))
       \<and> pristine_kept P (fs_of (run_script cf' rf' af' (fs_of (run_script cf rf af f))))"
proof -
  have "pristine_kept P (fs_of (run_script cf rf af f))"
    using assms by (rule pristine_kept_run_script)
  then have "pristine_kept P (fs_of (run_script cf' rf' af' (fs_of (run_script cf rf af f))))"
    by (rule pristine_kept_run_script)
  then show ?thesis
    using assms
    by (simp add: pristine_kept_ensureClean pristine_kept_restore_backup
        pristine_kept_apply_patch pristine_kept_run_script)
qed

theorem pristine_backup_preserved_witness:
  "pristine_kept usb_desc_sample [original_header_path \<mapsto> usb_desc_sample]
   \<and> [original_header_path \<mapsto> usb_desc_sample] backup_header_path = None
   \<and> pristine_kept usb_desc_sample
        (fs_of (apply_patch no_faults mouse_rule [original_header_path \<mapsto> usb_desc_sample]))
   \<and> pristine_kept usb_desc_sample
        (fs_of (run_script False False no_faults
          (fs_of (run_script False False no_faults
                    [original_header_path \<mapsto> usb_desc_sample]))))"
  using pristine_backup_preserved [of usb_desc_sample
      "[original_header_path \<mapsto> usb_desc_sample]" False False no_faults mouse_rule
      False False no_faults]
  by (simp add: pristine_kept_def)

text \<open>
  C3. Let the header hold \<open>C\<close>, and let \<open>C\<close> not contain the match text. Without faults
  the patch part completes on the branch that prints "not found or already patched": it
  writes nothing, the header still holds \<open>C\<close>, and the backup now exists and holds \<open>C\<close>.
  The cleanup that follows finds the backup, restores the header from it and removes it.
  Under any faults the header holds \<open>C\<close> after the patch part.
\<close>

theorem apply_no_match_keeps_content:
  assumes "f original_header_path = Some C"
    and "\<not> contains_str old C"
  shows "apply_patch no_faults (old, new) f =
           (Completed, [Backup_created, Not_found_or_already_patched],
            f(backup_header_path \<mapsto> C))
       \<and> fs_of (apply_patch no_faults (old, new) f) original_header_path = Some C
       \<and> fs_of (apply_patch no_faults (old, new) f) backup_header_path = Some C
       \<and> restore_backup False False (fs_of (apply_patch no_faults (old, new) f)) =
           (Completed, [Build_finished_restoring, Original_file_restored],
            f(backup_header_path := None))
       \<and> fs_of (apply_patch af (old, new) f) original_header_path = Some C"
proof -
  let ?f1 = "f(backup_header_path \<mapsto> C)"
  have a: "apply_patch no_faults (old, new) f =
             (Completed, [Backup_created, Not_found_or_already_patched], ?f1)"
    using assms by (rule apply_patch_no_match)
  have "?f1 backup_header_path = Some C" by simp
  then have "restore_backup False False ?f1 =
               (Completed, [Build_finished_restoring, Original_file_restored],
                ?f1(original_header_path \<mapsto> C, backup_header_path := None))"
    by (rule restore_backup_present)
  moreover have "?f1(original_header_path \<mapsto> C, backup_header_path := None)
                   = f(backup_header_path := None)"
  proof (rule ext)
    fix p
    show "(?f1(original_header_path \<mapsto> C, backup_header_path := None)) p
            = (f(backup_header_path := None)) p"
      using assms(1) by (cases p) simp_all
  qed
  ultimately have r: "restore_backup False False ?f1 =
      (Completed, [Build_finished_restoring, Original_file_restored],
       f(backup_header_path := None))"
    by simp
  have g: "fs_of (apply_patch af (old, new) f) original_header_path = Some C"
    using assms
    by (auto simp: apply_patch_def patch_body_def shutil_copy_def read_text_def
        os_remove_def fs_of_def split: sum.splits if_splits option.splits)
  show ?thesis
    using a r g assms(1) by (simp add: fs_of_def)
qed

theorem apply_no_match_keeps_content_witness:
  "\<not> contains_str original_mouse_interval usb_desc_patched
   \<and> apply_patch no_faults (original_mouse_interval, modified_mouse_interval)
        [original_header_path \<mapsto> usb_desc_patched] =
       (Completed, [Backup_created, Not_found_or_already_patched],
        [original_header_path \<mapsto> usb_desc_patched,
         backup_header_path \<mapsto> usb_desc_patched])
   \<and> restore_backup False False
        (fs_of (apply_patch no_faults (original_mouse_interval, modified_mouse_interval)
                  [original_header_path \<mapsto> usb_desc_patched])) =
       (Completed, [Build_finished_restoring, Original_file_restored],
        [original_header_path \<mapsto> usb_desc_patched](backup_header_path := None))"
proof -
  let ?f = "[original_header_path \<mapsto> usb_desc_patched]"
  have "?f original_header_path = Some usb_desc_patched"
    by simp
  then show ?thesis
    using apply_no_match_keeps_content [of ?f usb_desc_patched original_mouse_interval
        modified_mouse_interval no_faults] patched_not_contains
    by blast
qed

text \<open>
  C4. Let the header hold \<open>C\<close> and the backup copy succeed, and let the read raise, or
  the text contain the match text and the write raise, leaving anything in the header.
  Then the handler copies the backup over the header and removes the backup: when these
  two calls succeed the patch part ends with \<^verbatim>\<open>exit(1)\<close>, the header holds \<open>C\<close> and
  there is no backup. Whenever the patch part ends with \<^verbatim>\<open>exit(1)\<close> here, that is the
  state it leaves; and it never completes.
\<close>

theorem apply_failure_restores:
  assumes "f original_header_path = Some C"
    and "\<not> backup_copy_fails af"
    and "read_fails af \<or> (contains_str old C \<and> write_fault af = WriteFails left)"
  shows "(\<not> restore_copy_fails af \<and> \<not> restore_remove_fails af \<longrightarrow>
            apply_patch af (old, new) f =
              (SystemExit 1, [Backup_created, Error_could_not_read_write],
               f(original_header_path \<mapsto> C, backup_header_path := None)))
       \<and> (ending_of (apply_patch af (old, new) f) = SystemExit 1 \<longrightarrow>
            fs_of (apply_patch af (old, new) f) original_header_path = Some C
            \<and> fs_of (apply_patch af (old, new) f) backup_header_path = None)
       \<and> ending_of (apply_patch af (old, new) f) \<noteq> Completed"
proof -
  have "restore_copy_fails af \<or> restore_remove_fails af \<Longrightarrow>
        ending_of (apply_patch af (old, new) f) \<noteq> SystemExit 1"
    using assms
    by (auto simp: apply_patch_def patch_body_def shutil_copy_def read_text_def
        write_text_def os_remove_def ending_of_def
        split: option.splits sum.splits if_splits)
  moreover have "\<not> restore_copy_fails af \<Longrightarrow> \<not> restore_remove_fails af \<Longrightarrow>
      apply_patch af (old, new) f =
              (SystemExit 1, [Backup_created, Error_could_not_read_write],
               f(original_header_path \<mapsto> C, backup_header_path := None))"
    using assms by (rule apply_patch_compensates)
  moreover have "ending_of (apply_patch af (old, new) f) \<noteq> Completed"
    using assms
    by (auto simp: apply_patch_def patch_body_def shutil_copy_def read_text_def
        write_text_def os_remove_def ending_of_def
        split: option.splits sum.splits if_splits)
  ultimately show ?thesis
    by (cases "restore_copy_fails af \<or> restore_remove_fails af")
      (auto simp: fs_of_def ending_of_def)
qed

theorem apply_failure_restores_witness:
  "apply_patch (no_faults\<lparr>read_fails := True\<rparr>) mouse_rule
      [original_header_path \<mapsto> usb_desc_sample]
     = (SystemExit 1, [Backup_created, Error_could_not_read_write],
        [original_header_path \<mapsto> usb_desc_sample])
   \<and> contains_str original_mouse_interval usb_desc_sample
   \<and> apply_patch (no_faults\<lparr>write_fault := WriteFails (Some [])\<rparr>) mouse_rule
      [original_header_path \<mapsto> usb_desc_sample]
     = (SystemExit 1, [Backup_created, Error_could_not_read_write],
        [original_header_path \<mapsto> usb_desc_sample])"
proof -
  let ?f = "[original_header_path \<mapsto> usb_desc_sample]"
  have e: "?f(original_header_path \<mapsto> usb_desc_sample, backup_header_path := None) = ?f"
    by (rule ext) simp
  show ?thesis
    using apply_failure_restores [of ?f usb_desc_sample "no_faults\<lparr>read_fails := True\<rparr>"
        original_mouse_interval "Some []" modified_mouse_interval]
      apply_failure_restores [of ?f usb_desc_sample
        "no_faults\<lparr>write_fault := WriteFails (Some [])\<rparr>"
        original_mouse_interval "Some []" modified_mouse_interval]
      sample_contains
    by (simp add: no_faults_def mouse_rule_def e)
qed

text \<open>
  C5. When there is no backup, the cleanup completes under any faults: it prints its
  warning and leaves the file system as it is. Hence, once a cleanup has completed, a
  second one right after it is that warning and changes nothing; and without faults a
  cleanup always completes.
\<close>

theorem restore_without_backup:
  "(f backup_header_path = None \<longrightarrow>
      restore_backup cf rf f =
        (Completed, [Build_finished_restoring, Warning_backup_not_found], f))
   \<and> (ending_of (restore_backup cf rf f) = Completed \<longrightarrow>
        restore_backup cf' rf' (fs_of (restore_backup cf rf f)) =
          (Completed, [Build_finished_restoring, Warning_backup_not_found],
           fs_of (restore_backup cf rf f)))
   \<and> ending_of (restore_backup False False f) = Completed"
  by (auto simp: restore_backup_def os_path_exists_def shutil_copy_def os_remove_def
      ending_of_def fs_of_def split: sum.splits option.splits if_splits)

theorem restore_without_backup_witness:
  "[original_header_path \<mapsto> usb_desc_sample] backup_header_path = None
   \<and> restore_backup True True [original_header_path \<mapsto> usb_desc_sample] =
       (Completed, [Build_finished_restoring, Warning_backup_not_found],
        [original_header_path \<mapsto> usb_desc_sample])
   \<and> ending_of (restore_backup False False
        [original_header_path \<mapsto> usb_desc_patched,
         backup_header_path \<mapsto> usb_desc_sample]) = Completed
   \<and> restore_backup True True
        (fs_of (restore_backup False False
           [original_header_path \<mapsto> usb_desc_patched,
            backup_header_path \<mapsto> usb_desc_sample])) =
       (Completed, [Build_finished_restoring, Warning_backup_not_found],
        fs_of (restore_backup False False
           [original_header_path \<mapsto> usb_desc_patched,
            backup_header_path \<mapsto> usb_desc_sample]))"
proof -
  have "[original_header_path \<mapsto> usb_desc_sample] backup_header_path = None"
    by simp
  then show ?thesis
    using restore_without_backup [of "[original_header_path \<mapsto> usb_desc_sample]"
        True True True True]
      restore_without_backup [of "[original_header_path \<mapsto> usb_desc_patched,
        backup_header_path \<mapsto> usb_desc_sample]" False False True True]
    by blast
qed

text \<open>
  C6. When the safety check completes, there is no backup, and if there was one the
  header holds what it held; so the header holds the pristine content when the backup
  did. When there was no backup the safety check prints nothing and leaves the file
  system as it is. Without faults the safety check always completes.
\<close>

theorem ensureClean_result:
  "(ending_of (ensureClean cf rf f) = Completed \<longrightarrow>
      fs_of (ensureClean cf rf f) backup_header_path = None
      \<and> (\<forall>b. f backup_header_path = Some b \<longrightarrow>
            fs_of (ensureClean cf rf f) original_header_path = Some b)
      \<and> (pristine_kept P f \<longrightarrow>
            fs_of (ensureClean cf rf f) original_header_path = Some P))
   \<and> (f backup_header_path = None \<longrightarrow> ensureClean cf rf f = (Completed, [], f))
   \<and> ending_of (ensureClean False False f) = Completed"
  by (auto simp: ensureClean_def os_path_exists_def shutil_copy_def os_remove_def
      ending_of_def fs_of_def pristine_kept_def split: sum.splits option.splits if_splits)

theorem ensureClean_result_witness:
  "ending_of (ensureClean False False
      [original_header_path \<mapsto> usb_desc_patched,
       backup_header_path \<mapsto> usb_desc_sample]) = Completed
   \<and> fs_of (ensureClean False False
      [original_header_path \<mapsto> usb_desc_patched,
       backup_header_path \<mapsto> usb_desc_sample]) backup_header_path = None
   \<and> fs_of (ensureClean False False
      [original_header_path \<mapsto> usb_desc_patched,
       backup_header_path \<mapsto> usb_desc_sample]) original_header_path
       = Some usb_desc_sample
   \<and> ensureClean True True [original_header_path \<mapsto> usb_desc_sample] =
       (Completed, [], [original_header_path \<mapsto> usb_desc_sample])"
proof -
  let ?crashed = "[original_header_path \<mapsto> usb_desc_patched,
                   backup_header_path \<mapsto> usb_desc_sample]"
  have "?crashed backup_header_path = Some usb_desc_sample"
    and "[original_header_path \<mapsto> usb_desc_sample] backup_header_path = None"
    by simp_all
  then show ?thesis
    using ensureClean_result [of False False ?crashed usb_desc_sample]
      ensureClean_result [of True True "[original_header_path \<mapsto> usb_desc_sample]"
        usb_desc_sample]
    by blast
qed

text \<open>
  C7. When the copy of the header to the backup fails, whether the call raises or the
  header is missing, the patch part ends with \<^verbatim>\<open>exit(1)\<close> after the message that the
  backup could not be created. The file system is as it was: the header's content is
  unchanged, and nothing was read, replaced or written.
\<close>

theorem apply_backup_failed:
  assumes "backup_copy_fails af \<or> f original_header_path = None"
  shows "apply_patch af rule f = (SystemExit 1, [Error_could_not_create_backup], f)"
  using assms by (auto simp: apply_patch_def shutil_copy_def)

theorem apply_backup_failed_witness:
  "backup_copy_fails (no_faults\<lparr>backup_copy_fails := True\<rparr>)
   \<and> apply_patch (no_faults\<lparr>backup_copy_fails := True\<rparr>) mouse_rule
        [original_header_path \<mapsto> usb_desc_sample]
      = (SystemExit 1, [Error_could_not_create_backup],
         [original_header_path \<mapsto> usb_desc_sample])"
  using apply_backup_failed [of "no_faults\<lparr>backup_copy_fails := True\<rparr>"
      "[original_header_path \<mapsto> usb_desc_sample]" mouse_rule]
  by (simp add: no_faults_def)

text \<open>
  C8. Let the header hold \<open>C\<close> and \<open>C\<close> contain the match text. Without faults the patch
  part completes, printing that the header has been patched, and the header then holds
  \<open>str_replace old new C\<close>, which contains the replacement text. For a match text that
  is not empty this is \<open>C\<close> with all occurrences replaced, taken from the left, and the
  only such text. For the two lines of the script: a header that contains the line
  ending in 2 contains the line ending in 1 after the patch and no longer the line
  ending in 2; after the cleanup it holds \<open>C\<close>, with the line ending in 2, again, and the
  backup is gone.
\<close>

theorem apply_replaces_all_occurrences:
  "(f original_header_path = Some C \<and> contains_str old C \<longrightarrow>
      apply_patch no_faults (old, new) f =
        (Completed, [Backup_created, Patched_for_8kHz],
         f(backup_header_path \<mapsto> C, original_header_path \<mapsto> str_replace old new C))
      \<and> contains_str new (str_replace old new C)
      \<and> (old \<noteq> [] \<longrightarrow>
            replaced_all old new C (str_replace old new C)
            \<and> (\<forall>t. replaced_all old new C t \<longrightarrow> t = str_replace old new C)))
   \<and> (f original_header_path = Some C \<and> contains_str original_mouse_interval C \<longrightarrow>
        fs_of (apply_patch no_faults mouse_rule f) original_header_path
          = Some (str_replace original_mouse_interval modified_mouse_interval C)
        \<and> contains_str modified_mouse_interval
             (str_replace original_mouse_interval modified_mouse_interval C)
        \<and> \<not> contains_str original_mouse_interval
             (str_replace original_mouse_interval modified_mouse_interval C)
        \<and> fs_of (restore_backup False False (fs_of (apply_patch no_faults mouse_rule f)))
             original_header_path = Some C
        \<and> fs_of (restore_backup False False (fs_of (apply_patch no_faults mouse_rule f)))
             backup_header_path = None)"
proof (intro conjI impI allI)
  assume h: "f original_header_path = Some C \<and> contains_str old C"
  then show "apply_patch no_faults (old, new) f =
        (Completed, [Backup_created, Patched_for_8kHz],
         f(backup_header_path \<mapsto> C, original_header_path \<mapsto> str_replace old new C))"
    by (simp add: apply_patch_match)
  from h show "contains_str new (str_replace old new C)"
    by (simp add: contains_replacement)
next
  assume "old \<noteq> []"
  then show "replaced_all old new C (str_replace old new C)"
    by (rule str_replace_replaced_all)
next
  fix t
  assume "replaced_all old new C t" and "old \<noteq> []"
  then show "t = str_replace old new C"
    by (rule replaced_all_unique)
next
  assume h: "f original_header_path = Some C \<and> contains_str original_mouse_interval C"
  let ?C' = "str_replace original_mouse_interval modified_mouse_interval C"
  let ?f1 = "f(backup_header_path \<mapsto> C, original_header_path \<mapsto> ?C')"
  have a: "apply_patch no_faults mouse_rule f =
             (Completed, [Backup_created, Patched_for_8kHz], ?f1)"
    using h by (simp add: mouse_rule_def apply_patch_match)
  have "?f1 backup_header_path = Some C" by simp
  then have r: "restore_backup False False ?f1 =
      (Completed, [Build_finished_restoring, Original_file_restored],
       ?f1(original_header_path \<mapsto> C, backup_header_path := None))"
    by (rule restore_backup_present)
  show "fs_of (apply_patch no_faults mouse_rule f) original_header_path = Some ?C'"
    by (simp add: a fs_of_def)
  from h show "contains_str modified_mouse_interval ?C'"
    by (simp add: contains_replacement)
  show "\<not> contains_str original_mouse_interval ?C'"
    by (rule mouse_rule_removes_original)
  show "fs_of (restore_backup False False (fs_of (apply_patch no_faults mouse_rule f)))
          original_header_path = Some C"
    using r by (simp add: a fs_of_def)
  show "fs_of (restore_backup False False (fs_of (apply_patch no_faults mouse_rule f)))
          backup_header_path = None"
    using r by (simp add: a fs_of_def)
qed

theorem apply_replaces_all_occurrences_witness:
  "contains_str original_mouse_interval usb_desc_sample
   \<and> original_mouse_interval \<noteq> []
   \<and> apply_patch no_faults (original_mouse_interval, modified_mouse_interval)
        [original_header_path \<mapsto> usb_desc_sample] =
        (Completed, [Backup_created, Patched_for_8kHz],
         [original_header_path \<mapsto> usb_desc_sample, backup_header_path \<mapsto> usb_desc_sample,
          original_header_path \<mapsto> usb_desc_patched])
   \<and> replaced_all original_mouse_interval modified_mouse_interval
        usb_desc_sample usb_desc_patched
   \<and> contains_str modified_mouse_interval usb_desc_patched
   \<and> \<not> contains_str original_mouse_interval usb_desc_patched
   \<and> fs_of (restore_backup False False
        (fs_of (apply_patch no_faults mouse_rule [original_header_path \<mapsto> usb_desc_sample])))
        original_header_path = Some usb_desc_sample
   \<and> fs_of (restore_backup False False
        (fs_of (apply_patch no_faults mouse_rule [original_header_path \<mapsto> usb_desc_sample])))
        backup_header_path = None"
proof -
  let ?f = "[original_header_path \<mapsto> usb_desc_sample]"
  have "?f original_header_path = Some usb_desc_sample"
    by simp
  moreover have "original_mouse_interval \<noteq> []"
    by (simp add: original_mouse_interval_def)
  ultimately show ?thesis
    using apply_replaces_all_occurrences [of ?f usb_desc_sample original_mouse_interval
        modified_mouse_interval] sample_contains sample_patched
    by metis
qed

text \<open>
  C9. Let the header hold \<open>C1\<close> after a first run of the patch part, and let \<open>C1\<close> not
  contain the match text. A second run right after it, under any faults, leaves the
  header holding \<open>C1\<close>; without faults it completes on the branch that prints "not found
  or already patched" and only rewrites the backup. With the two lines of the script
  this is so after every first run without faults, whatever the header held: the second
  run leaves the header as the first one left it.
\<close>

theorem second_apply_is_no_op:
  "(fs_of (apply_patch af1 (old, new) f) original_header_path = Some C1
      \<and> \<not> contains_str old C1 \<longrightarrow>
      fs_of (apply_patch af2 (old, new) (fs_of (apply_patch af1 (old, new) f)))
        original_header_path = Some C1
      \<and> apply_patch no_faults (old, new) (fs_of (apply_patch af1 (old, new) f)) =
          (Completed, [Backup_created, Not_found_or_already_patched],
           (fs_of (apply_patch af1 (old, new) f))(backup_header_path \<mapsto> C1)))
   \<and> (f original_header_path = Some C \<longrightarrow>
        fs_of (apply_patch no_faults mouse_rule (fs_of (apply_patch no_faults mouse_rule f)))
          original_header_path
        = fs_of (apply_patch no_faults mouse_rule f) original_header_path
        \<and> printed (apply_patch no_faults mouse_rule
                     (fs_of (apply_patch no_faults mouse_rule f)))
          = [Backup_created, Not_found_or_already_patched]
        \<and> ending_of (apply_patch no_faults mouse_rule
                     (fs_of (apply_patch no_faults mouse_rule f))) = Completed)"
proof (intro conjI impI)
  assume h: "fs_of (apply_patch af1 (old, new) f) original_header_path = Some C1
      \<and> \<not> contains_str old C1"
  let ?f1 = "fs_of (apply_patch af1 (old, new) f)"
  from h show "fs_of (apply_patch af2 (old, new) ?f1) original_header_path = Some C1"
    by (simp add: apply_patch_no_match_original)
  from h show "apply_patch no_faults (old, new) ?f1 =
      (Completed, [Backup_created, Not_found_or_already_patched],
       ?f1(backup_header_path \<mapsto> C1))"
    by (simp add: apply_patch_no_match)
next
  assume h: "f original_header_path = Some C"
  let ?f1 = "fs_of (apply_patch no_faults mouse_rule f)"
  have "\<exists>C1. ?f1 original_header_path = Some C1
          \<and> \<not> contains_str original_mouse_interval C1"
  proof (cases "contains_str original_mouse_interval C")
    case True
    with h have "?f1 original_header_path
        = Some (str_replace original_mouse_interval modified_mouse_interval C)"
      by (simp add: mouse_rule_def apply_patch_match fs_of_def)
    then show ?thesis
      using mouse_rule_removes_original by blast
  next
    case False
    with h have "?f1 original_header_path = Some C"
      by (simp add: mouse_rule_def apply_patch_no_match fs_of_def)
    with False show ?thesis by blast
  qed
  then obtain C1 where c1: "?f1 original_header_path = Some C1"
    and nc: "\<not> contains_str original_mouse_interval C1"
    by blast
  then have a2: "apply_patch no_faults mouse_rule ?f1 =
      (Completed, [Backup_created, Not_found_or_already_patched],
       ?f1(backup_header_path \<mapsto> C1))"
    unfolding mouse_rule_def by (rule apply_patch_no_match)
  show "fs_of (apply_patch no_faults mouse_rule ?f1) original_header_path
          = ?f1 original_header_path"
    by (simp add: a2 fs_of_def [of "(Completed, [Backup_created, Not_found_or_already_patched],
       ?f1(backup_header_path \<mapsto> C1))"])
  show "printed (apply_patch no_faults mouse_rule ?f1)
          = [Backup_created, Not_found_or_already_patched]"
    by (simp add: a2 printed_def)
  show "ending_of (apply_patch no_faults mouse_rule ?f1) = Completed"
    by (simp add: a2 ending_of_def)
qed

theorem second_apply_is_no_op_witness:
  "fs_of (apply_patch no_faults (original_mouse_interval, modified_mouse_interval)
      [original_header_path \<mapsto> usb_desc_sample]) original_header_path
     = Some usb_desc_patched
   \<and> \<not> contains_str original_mouse_interval usb_desc_patched
   \<and> fs_of (apply_patch no_faults (original_mouse_interval, modified_mouse_interval)
        (fs_of (apply_patch no_faults (original_mouse_interval, modified_mouse_interval)
                  [original_header_path \<mapsto> usb_desc_sample]))) original_header_path
     = Some usb_desc_patched
   \<and> printed (apply_patch no_faults mouse_rule
        (fs_of (apply_patch no_faults mouse_rule
                  [original_header_path \<mapsto> usb_desc_sample])))
     = [Backup_created, Not_found_or_already_patched]"
proof -
  let ?f = "[original_header_path \<mapsto> usb_desc_sample]"
  have o: "?f original_header_path = Some usb_desc_sample"
    by simp
  have "apply_patch no_faults (original_mouse_interval, modified_mouse_interval) ?f =
      (Completed, [Backup_created, Patched_for_8kHz],
       ?f(backup_header_path \<mapsto> usb_desc_sample,
          original_header_path \<mapsto>
            str_replace original_mouse_interval modified_mouse_interval usb_desc_sample))"
    using o sample_contains by (rule apply_patch_match)
  then have "fs_of (apply_patch no_faults (original_mouse_interval, modified_mouse_interval)
      ?f) original_header_path = Some usb_desc_patched"
    by (simp add: fs_of_def sample_patched)
  then show ?thesis
    using second_apply_is_no_op [of no_faults original_mouse_interval
        modified_mouse_interval ?f usb_desc_patched no_faults usb_desc_sample]
      patched_not_contains o
    by blast
qed

text \<open>
  C10. Under the same faults, the safety check and the cleanup end the same way and
  leave the same file system. When there is a backup and no fault, both leave the header
  holding what the backup held, and no backup. When there is no backup, both leave the
  file system as it is, under any faults; they differ in what they print, the safety
  check nothing and the cleanup its warning.
\<close>

theorem ensureClean_restore_backup_same:
  "fs_of (ensureClean cf rf f) = fs_of (restore_backup cf rf f)
   \<and> ending_of (ensureClean cf rf f) = ending_of (restore_backup cf rf f)
   \<and> (\<forall>b. f backup_header_path = Some b \<longrightarrow>
         fs_of (ensureClean False False f)
           = f(original_header_path \<mapsto> b, backup_header_path := None)
       \<and> fs_of (restore_backup False False f)
           = f(original_header_path \<mapsto> b, backup_header_path := None))
   \<and> (f backup_header_path = None \<longrightarrow>
         fs_of (ensureClean cf rf f) = f \<and> fs_of (restore_backup cf rf f) = f
         \<and> printed (ensureClean cf rf f) = []
         \<and> printed (restore_backup cf rf f)
             = [Build_finished_restoring, Warning_backup_not_found])"
  by (auto simp: ensureClean_def restore_backup_def os_path_exists_def shutil_copy_def
      os_remove_def ending_of_def fs_of_def printed_def split: sum.splits option.splits)

theorem ensureClean_restore_backup_same_witness:
  "[original_header_path \<mapsto> usb_desc_patched, backup_header_path \<mapsto> usb_desc_sample]
      backup_header_path = Some usb_desc_sample
   \<and> fs_of (ensureClean False False
        [original_header_path \<mapsto> usb_desc_patched,
         backup_header_path \<mapsto> usb_desc_sample])
     = [original_header_path \<mapsto> usb_desc_patched, backup_header_path \<mapsto> usb_desc_sample]
         (original_header_path \<mapsto> usb_desc_sample, backup_header_path := None)
   \<and> fs_of (restore_backup False False
        [original_header_path \<mapsto> usb_desc_patched,
         backup_header_path \<mapsto> usb_desc_sample])
     = [original_header_path \<mapsto> usb_desc_patched, backup_header_path \<mapsto> usb_desc_sample]
         (original_header_path \<mapsto> usb_desc_sample, backup_header_path := None)
   \<and> [original_header_path \<mapsto> usb_desc_sample] backup_header_path = None
   \<and> fs_of (ensureClean True True [original_header_path \<mapsto> usb_desc_sample])
     = [original_header_path \<mapsto> usb_desc_sample]
   \<and> fs_of (restore_backup True True [original_header_path \<mapsto> usb_desc_sample])
     = [original_header_path \<mapsto> usb_desc_sample]"
proof -
  let ?crashed = "[original_header_path \<mapsto> usb_desc_patched,
                   backup_header_path \<mapsto> usb_desc_sample]"
  have "?crashed backup_header_path = Some usb_desc_sample"
    and "[original_header_path \<mapsto> usb_desc_sample] backup_header_path = None"
    by simp_all
  then show ?thesis
    using ensureClean_restore_backup_same [of False False ?crashed]
      ensureClean_restore_backup_same [of True True
        "[original_header_path \<mapsto> usb_desc_sample]"]
    by blast
qed

end
